theory Spec2Isabelle
  imports Main "HOL-Library.Word"
begin

section \<open>Strings: the operations of Go's strings, bytes and fmt packages the template uses\<close>

text \<open>
  Go strings are byte sequences; they are modelled as \<open>string\<close> (a list of \<open>char\<close>,
  one per byte), and a rune is its UTF-8 encoding. Prefixes, splitting and replacing work
  on bytes in Go as they do here.
\<close>

definition HasPrefix :: "string \<Rightarrow> string \<Rightarrow> bool" where
  \<comment> \<open>strings.HasPrefix(s, prefix)\<close>
  "HasPrefix s pre = (take (length pre) s = pre)"

fun SplitSep :: "string \<Rightarrow> nat \<Rightarrow> string \<Rightarrow> string \<Rightarrow> string list" where
  \<comment> \<open>the scan of strings.Split for a non-empty separator \<open>sep\<close>: \<open>skip\<close> counts the bytes
      of a separator just matched that are still to be passed over, \<open>acc\<close> holds the current
      piece reversed\<close>
  "SplitSep sep skip acc [] = [rev acc]"
| "SplitSep sep (Suc k) acc (c # cs) = SplitSep sep k acc cs"
| "SplitSep sep 0 acc (c # cs) =
     (if HasPrefix (c # cs) sep then rev acc # SplitSep sep (length sep - 1) [] cs
      else SplitSep sep 0 (c # acc) cs)"

definition Split :: "string \<Rightarrow> string \<Rightarrow> string list" where
  \<comment> \<open>strings.Split(s, sep): all pieces between non-overlapping occurrences of \<open>sep\<close>, found
      left to right; an empty separator explodes the string into its bytes\<close>
  "Split s sep = (if sep = [] then map (\<lambda>c. [c]) s else SplitSep sep 0 [] s)"

definition spaceRunes :: "string list" where
  \<comment> \<open>the UTF-8 encodings of the runes of unicode.IsSpace: U+0009 to U+000D, U+0020, U+0085,
      U+00A0, U+1680, U+2000 to U+200A, U+2028, U+2029, U+202F, U+205F and U+3000\<close>
  "spaceRunes =
     [[CHR 0x09], [CHR 0x0A], [CHR 0x0B], [CHR 0x0C], [CHR 0x0D], [CHR 0x20],
      [CHR 0xC2, CHR 0x85], [CHR 0xC2, CHR 0xA0], [CHR 0xE1, CHR 0x9A, CHR 0x80],
      [CHR 0xE2, CHR 0x80, CHR 0x80],
      [CHR 0xE2, CHR 0x80, CHR 0x81],
      [CHR 0xE2, CHR 0x80, CHR 0x82],
      [CHR 0xE2, CHR 0x80, CHR 0x83],
      [CHR 0xE2, CHR 0x80, CHR 0x84],
      [CHR 0xE2, CHR 0x80, CHR 0x85],
      [CHR 0xE2, CHR 0x80, CHR 0x86],
      [CHR 0xE2, CHR 0x80, CHR 0x87],
      [CHR 0xE2, CHR 0x80, CHR 0x88],
      [CHR 0xE2, CHR 0x80, CHR 0x89],
      [CHR 0xE2, CHR 0x80, CHR 0x8A],
      [CHR 0xE2, CHR 0x80, CHR 0xA8], [CHR 0xE2, CHR 0x80, CHR 0xA9],
      [CHR 0xE2, CHR 0x80, CHR 0xAF], [CHR 0xE2, CHR 0x81, CHR 0x9F],
      [CHR 0xE3, CHR 0x80, CHR 0x80]]"

definition spacePrefix :: "string list \<Rightarrow> string \<Rightarrow> nat" where
  \<comment> \<open>the width in bytes of the rune of \<open>runes\<close> that \<open>s\<close> starts with, 0 when it starts
      with none (a byte sequence that is not valid UTF-8 decodes to no white space)\<close>
  "spacePrefix runes s = (case filter (HasPrefix s) runes of [] \<Rightarrow> 0 | r # _ \<Rightarrow> length r)"

lemma spacePrefix_Nil: "spacePrefix runes [] = 0"
proof (cases "filter (HasPrefix []) runes")
  case Nil
  then show ?thesis by (simp add: spacePrefix_def)
next
  case (Cons r rs)
  then have "r \<in> set (filter (HasPrefix []) runes)" by simp
  then have "r = []" by (auto simp: HasPrefix_def)
  then show ?thesis using Cons by (simp add: spacePrefix_def)
qed

function trimRunes :: "string list \<Rightarrow> string \<Rightarrow> string" where
  \<comment> \<open>strings.TrimLeftFunc: the runes of \<open>runes\<close> at the start of \<open>s\<close> removed\<close>
  "trimRunes runes s =
     (if spacePrefix runes s = 0 then s else trimRunes runes (drop (spacePrefix runes s) s))"
  by pat_completeness auto
termination
proof (relation "measure (\<lambda>(runes, s). length s)", goal_cases)
  case 1
  show ?case by simp
next
  case (2 runes s)
  then have "s \<noteq> []" using spacePrefix_Nil[of runes] by auto
  then show ?case using 2 by simp
qed

declare trimRunes.simps [simp del]

definition TrimSpace :: "string \<Rightarrow> string" where
  \<comment> \<open>strings.TrimSpace and bytes.TrimSpace: the white-space runes at the start removed, then
      those at the end (a rune at the end is matched by its encoding read backwards)\<close>
  "TrimSpace s = rev (trimRunes (map rev spaceRunes) (rev (trimRunes spaceRunes s)))"

fun ReplaceFrom :: "string \<Rightarrow> string \<Rightarrow> nat \<Rightarrow> string \<Rightarrow> string" where
  \<comment> \<open>the scan of bytes.Replace for a non-empty \<open>old\<close>; \<open>skip\<close> as in \<open>SplitSep\<close>\<close>
  "ReplaceFrom old new skip [] = []"
| "ReplaceFrom old new (Suc k) (c # cs) = ReplaceFrom old new k cs"
| "ReplaceFrom old new 0 (c # cs) =
     (if HasPrefix (c # cs) old then new @ ReplaceFrom old new (length old - 1) cs
      else c # ReplaceFrom old new 0 cs)"

definition Replace :: "string \<Rightarrow> string \<Rightarrow> string \<Rightarrow> string" where
  \<comment> \<open>bytes.Replace(s, old, new, -1): every non-overlapping occurrence replaced; an empty
      \<open>old\<close> matches before every byte and at the end\<close>
  "Replace s old new =
     (if old = [] then concat (map (\<lambda>c. new @ [c]) s) @ new else ReplaceFrom old new 0 s)"

definition isSeparator :: "char \<Rightarrow> bool" where
  \<comment> \<open>strings.isSeparator on an ASCII byte: everything but letters, digits and the
      underscore\<close>
  "isSeparator c =
     (let n = (of_char c :: nat)
      in \<not> ((48 \<le> n \<and> n \<le> 57) \<or> (97 \<le> n \<and> n \<le> 122) \<or> (65 \<le> n \<and> n \<le> 90) \<or> n = 95))"

definition toUpper :: "char \<Rightarrow> char" where
  "toUpper c =
     (let n = (of_char c :: nat) in if 97 \<le> n \<and> n \<le> 122 then char_of (n - 32) else c)"

fun TitleFrom :: "char \<Rightarrow> string \<Rightarrow> string" where
  "TitleFrom prev [] = []"
| "TitleFrom prev (c # cs) = (if isSeparator prev then toUpper c else c) # TitleFrom c cs"

definition TitleASCII :: "string \<Rightarrow> string" where
  \<comment> \<open>strings.Title on a string of ASCII bytes: the first letter of every word in upper
      case\<close>
  "TitleASCII s = TitleFrom (CHR '' '') s"

definition digit :: "nat \<Rightarrow> char" where
  "digit d = char_of (48 + d)"

fun digits :: "nat \<Rightarrow> nat \<Rightarrow> string" where
  \<comment> \<open>the decimal digits of \<open>n\<close>, most significant first; the first argument bounds the
      number of digits (20 are enough for 64 bits)\<close>
  "digits 0 n = []"
| "digits (Suc k) n = (if n < 10 then [digit n] else digits k (n div 10) @ [digit (n mod 10)])"

definition FormatInt :: "int \<Rightarrow> string" where
  \<comment> \<open>fmt.Sprintf("%d", i) for a 64-bit i\<close>
  "FormatInt i = (if i < 0 then CHR ''-'' # digits 20 (nat (- i)) else digits 20 (nat i))"

section \<open>The data model\<close>

text \<open>An \<open>html.Attribute\<close> and an \<open>html.Node\<close>, with the fields of the Go structs. The
  pointers \<open>FirstChild\<close> and \<open>NextSibling\<close> are the list of children, in order; \<open>Parent\<close>
  and \<open>PrevSibling\<close> are the position of a node in its parent's list.\<close>

datatype attribute = Attribute (Namespace: string) (Key: string) (Val: string)

datatype NodeType =
  ErrorNode | TextNode | DocumentNode | ElementNode | CommentNode | DoctypeNode | RawNode

datatype node =
  Node (Type: NodeType) (Data: string) (Attr: "attribute list") (Children: "node list")

text \<open>The values a data field (a Go \<open>interface{}\<close>) holds. \<open>VSlice\<close> is a slice or an array.
  \<open>VMap k s\<close> is a map or a channel with \<open>k\<close> entries, and \<open>VOpaque s\<close> is any other value
  (a struct, a float, a nil interface); \<open>s\<close> is what \<open>%v\<close> prints for them.\<close>

datatype val =
  VStr string | VBool bool | VInt int | VSlice "val list" | VMap nat string | VOpaque string

type_synonym data = "string \<rightharpoonup> val"

datatype error =
    UnknownVueAttribute string    \<comment> \<open>"unknown vue attribute: %v"\<close>
  | UnknownDataField string       \<comment> \<open>"unknown data field: %s"\<close>
  | SliceNotFound string          \<comment> \<open>"slice not found for field: %s"\<close>
  | DataFieldNotString            \<comment> \<open>"data field is not of type string: %T"\<close>
  | IndexOutOfRange               \<comment> \<open>the run-time panic of an index beyond a slice's length\<close>
  | ReflectLen                    \<comment> \<open>the panic of reflect.Value.Len on a value with no length\<close>
  | ReflectIndex                  \<comment> \<open>the panic of reflect.Value.Index on a map or a channel\<close>
  | NilPointer                    \<comment> \<open>the run-time panic of a method call through a nil parent\<close>
  | ParseError string             \<comment> \<open>an error of html.ParseFragment\<close>
  | RenderError string            \<comment> \<open>an error of html.Render\<close>
  | MustacheError string          \<comment> \<open>an error of mustache.Render\<close>
  | SubError string               \<comment> \<open>a panic of the nested execution of a subcomponent\<close>

section \<open>Constants\<close>

definition v :: string where "v = ''v-''"
definition vBind :: string where "vBind = ''v-bind''"
definition vFor :: string where "vFor = ''v-for''"
definition vHtml :: string where "vHtml = ''v-html''"
definition vIf :: string where "vIf = ''v-if''"
definition vModel :: string where "vModel = ''v-model''"
definition vOn :: string where "vOn = ''v-on''"

definition attrOrder :: "string list" where
  "attrOrder = [vFor, vIf, vModel, vOn, vBind, vHtml]"

section \<open>Ordering and deleting attributes\<close>

definition orderAttrs :: "attribute list \<Rightarrow> attribute list" where
  \<comment> \<open>the new value of \<open>node.Attr\<close>: for each prefix of \<open>attrOrder\<close> in turn the attributes
      whose key has it, then the attributes whose key does not start with \<open>v\<close>\<close>
  "orderAttrs attrs =
     (if length attrs = 0 then attrs
      else concat (map (\<lambda>prefix. filter (\<lambda>a. HasPrefix (Key a) prefix) attrs) attrOrder)
           @ filter (\<lambda>a. \<not> HasPrefix (Key a) v) attrs)"

definition deleteAttr :: "attribute list \<Rightarrow> nat \<Rightarrow> attribute list" where
  \<comment> \<open>\<open>append(node.Attr[:i], node.Attr[i+1:]...)\<close>\<close>
  "deleteAttr attrs i = take i attrs @ drop (i + 1) attrs"

section \<open>The collaborators of the template\<close>

text \<open>A component as far as the template reads and writes it: the names of its declared
  props and the prop map a bind directive fills.\<close>

datatype comp = Comp (propNames: "string list") (props: "string \<rightharpoonup> val")

text \<open>The markup parser and serialiser (golang.org/x/net/html), the mustache engine and
  the subcomponent machinery are outside the template; they are parameters of the model.
  \<open>ParseFragment\<close> is \<open>html.ParseFragment\<close> in the context of a div element, \<open>Render\<close>
  is \<open>html.Render\<close> into a fresh buffer, \<open>MustacheRender\<close> is \<open>mustache.Render\<close>;
  each returns \<open>Inl\<close> of the error's text when it fails. \<open>newSub\<close> is \<open>comp.newSub\<close>
  (\<open>None\<close> when the tag names no subcomponent) and \<open>executeSub\<close> is
  \<open>newViewModel(sub).executeSub()\<close>. \<open>TitleUnicode\<close> is \<open>strings.Title\<close> outside ASCII.\<close>

record env =
  ParseFragment :: "string \<Rightarrow> string + node list"
  Render :: "node \<Rightarrow> string + string"
  MustacheRender :: "string \<Rightarrow> data \<Rightarrow> string + string"
  newSub :: "string \<Rightarrow> comp option"
  executeSub :: "comp \<Rightarrow> error + node"
  TitleUnicode :: "string \<Rightarrow> string"

definition Title :: "env \<Rightarrow> string \<Rightarrow> string" where
  \<comment> \<open>strings.Title. On a string with a byte outside ASCII it reads the letter tables of the
      unicode package, which are not modelled: there it is the parameter \<open>TitleUnicode\<close>.\<close>
  "Title e s =
     (if list_all (\<lambda>c. (of_char c :: nat) < 128) s then TitleASCII s else TitleUnicode e s)"

datatype handler = vModelHandler | vOnHandler

text \<open>What one execution changes besides the tree: the id counter of the template (an
  int64), the data map, and the listeners registered with the callback of the component.\<close>

record tmpl_state =
  tmpl_id :: "64 word"
  data :: data
  listeners :: "(string \<times> handler) list"

definition addEventListener :: "string \<Rightarrow> handler \<Rightarrow> tmpl_state \<Rightarrow> tmpl_state" where
  \<comment> \<open>Modelled from the spec: \<open>callback.addEventListener\<close> is not among the sources; it
      registers the handler with the event subsystem for the event type.\<close>
  "addEventListener typ h st = st\<lparr>listeners := listeners st @ [(typ, h)]\<rparr>"

definition hasProp :: "comp option \<Rightarrow> string \<Rightarrow> bool" where
  \<comment> \<open>Modelled from the spec: \<open>Comp.hasProp\<close> is not among the sources; the prop name
      matches a declared prop of the subcomponent, and no prop when there is none.\<close>
  "hasProp sub prop = (case sub of None \<Rightarrow> False | Some c \<Rightarrow> prop \<in> set (propNames c))"

definition setProp :: "comp option \<Rightarrow> string \<Rightarrow> val \<Rightarrow> comp option" where
  \<comment> \<open>\<open>sub.props[prop] = field\<close>\<close>
  "setProp sub prop field = map_option (\<lambda>c. Comp (propNames c) ((props c)(prop \<mapsto> field))) sub"

definition appendAttr :: "node \<Rightarrow> attribute \<Rightarrow> node" where
  \<comment> \<open>\<open>node.Attr = append(node.Attr, a)\<close>\<close>
  "appendAttr n a = Node (Type n) (Data n) (Attr n @ [a]) (Children n)"

definition setAttr :: "node \<Rightarrow> attribute list \<Rightarrow> node" where
  "setAttr n attrs = Node (Type n) (Data n) attrs (Children n)"

definition setChildren :: "node \<Rightarrow> node list \<Rightarrow> node" where
  "setChildren n cs = Node (Type n) (Data n) (Attr n) cs"

definition setData :: "node \<Rightarrow> string \<Rightarrow> node" where
  "setData n d = Node (Type n) d (Attr n) (Children n)"

definition parseNodes :: "env \<Rightarrow> string \<Rightarrow> error + node list" where
  "parseNodes e s = (case ParseFragment e s of Inl m \<Rightarrow> Inl (ParseError m) | Inr ns \<Rightarrow> Inr ns)"

definition parseNode :: "env \<Rightarrow> string \<Rightarrow> error + node" where
  \<comment> \<open>the placeholder root: an element with no tag and no attribute over the parsed nodes\<close>
  "parseNode e tmpl =
     (case parseNodes e tmpl of Inl x \<Rightarrow> Inl x | Inr ns \<Rightarrow> Inr (Node ElementNode [] [] ns))"

fun Sprintv :: "val \<Rightarrow> string" and SprintvList :: "val list \<Rightarrow> string" where
  \<comment> \<open>fmt.Sprintf("%v", field); the elements of a slice are separated by one space\<close>
  "Sprintv (VStr s) = s"
| "Sprintv (VBool b) = (if b then ''true'' else ''false'')"
| "Sprintv (VInt i) = FormatInt i"
| "Sprintv (VSlice xs) = ''['' @ SprintvList xs @ '']''"
| "Sprintv (VMap k s) = s"
| "Sprintv (VOpaque s) = s"
| "SprintvList [] = []"
| "SprintvList [x] = Sprintv x"
| "SprintvList (x # y # ys) = Sprintv x @ '' '' @ SprintvList (y # ys)"

section \<open>The directives\<close>

text \<open>
  A handler runs on a node that the dispatcher has already stripped of the directive. The
  position of the node in the tree is \<open>sibs\<close>: \<open>None\<close> when the node has no parent,
  \<open>Some right\<close> with the siblings after the node otherwise (the siblings before it are
  never read or changed). A returned \<open>*html.Node\<close> is the chain of siblings that starts at
  it, \<open>[]\<close> for nil. A handler that reports a modification has replaced the node in its
  parent's list of children: the list then continues with the returned chain.

  A failed \<open>must\<close> panics; the panic is the \<open>Inl\<close> result, and nothing is returned.
\<close>

definition executeAttrBind ::
  "env \<Rightarrow> node \<Rightarrow> comp option \<Rightarrow> string \<Rightarrow> string \<Rightarrow> data \<Rightarrow> error + node \<times> comp option" where
  "executeAttrBind e n sub key value d =
     (case d value of
        None \<Rightarrow> Inl (UnknownDataField value)
      | Some field \<Rightarrow>
          (let prop = Title e key
           in if hasProp sub prop then Inr (n, setProp sub prop field)
              else if field = VBool False then Inr (n, sub)
              else Inr (appendAttr n (Attribute [] key (Sprintv field)), sub)))"

definition reflectElems :: "val \<Rightarrow> error + val list" where
  \<comment> \<open>\<open>reflect.ValueOf(slice)\<close> as \<open>Len\<close> and \<open>Index\<close> read it: the elements of a slice or
      array, the bytes of a string (as uint8). A map or channel has a length, and \<open>Index\<close>
      panics on it in the first iteration of the loop, which nothing else can stop before;
      with no entry the loop does not run. \<open>Len\<close> panics on the other values.\<close>
  "reflectElems x =
     (case x of
        VSlice xs \<Rightarrow> Inr xs
      | VStr s \<Rightarrow> Inr (map (\<lambda>c. VInt (of_char c)) s)
      | VMap k s \<Rightarrow> (if k = 0 then Inr [] else Inl ReflectIndex)
      | _ \<Rightarrow> Inl ReflectLen)"

fun forLoop ::
  "string \<Rightarrow> string \<Rightarrow> val list \<Rightarrow> string \<times> 64 word \<times> data \<Rightarrow> string \<times> 64 word \<times> data" where
  \<comment> \<open>the loop over the elements: the buffer, the id counter and the data map after it\<close>
  "forLoop elem name [] acc = acc"
| "forLoop elem name (x # xs) (buf, i, d) =
     (let key = name @ FormatInt (sint i)
      in forLoop elem name xs (buf @ Replace elem name key, i + 1, d(key \<mapsto> x)))"

definition executeAttrFor ::
  "env \<Rightarrow> node \<Rightarrow> node list option \<Rightarrow> string \<Rightarrow> tmpl_state
     \<Rightarrow> error + node list \<times> bool \<times> tmpl_state" where
  "executeAttrFor e n sibs value st =
     (case Split value ''in'' of
        [] \<Rightarrow> Inl IndexOutOfRange
      | [v0] \<Rightarrow> Inl IndexOutOfRange
      | v0 # v1 # _ \<Rightarrow>
          (let name = TrimSpace v0; field = TrimSpace v1
           in case data st field of
                None \<Rightarrow> Inl (SliceNotFound field)
              | Some sl \<Rightarrow>
                  (case Render e n of
                     Inl m \<Rightarrow> Inl (RenderError m)
                   | Inr elem \<Rightarrow>
                       (case reflectElems sl of
                          Inl x \<Rightarrow> Inl x
                        | Inr values \<Rightarrow>
                            (case forLoop elem name values ([], tmpl_id st, data st) of
                               (buf, i, d) \<Rightarrow>
                                 (case parseNodes e buf of
                                    Inl x \<Rightarrow> Inl x
                                  | Inr nodes \<Rightarrow>
                                      (case sibs of
                                         None \<Rightarrow> Inl NilPointer
                                       | Some right \<Rightarrow>
                                           (case nodes of
                                              [] \<Rightarrow> Inl IndexOutOfRange
                                            | _ # _ \<Rightarrow>
                                                Inr (nodes @ right, True,
                                                     st\<lparr>tmpl_id := i, data := d\<rparr>)))))))))"

definition executeAttrHtml :: "env \<Rightarrow> node \<Rightarrow> string \<Rightarrow> data \<Rightarrow> error + node" where
  "executeAttrHtml e n field d =
     (case d field of
        None \<Rightarrow> Inl (UnknownDataField field)
      | Some value \<Rightarrow>
          (case value of
             VStr html \<Rightarrow>
               (case parseNodes e html of
                  Inl x \<Rightarrow> Inl x
                | Inr nodes \<Rightarrow> Inr (setChildren n (Children n @ nodes)))
           | _ \<Rightarrow> Inl DataFieldNotString))"

definition executeAttrIf ::
  "node \<Rightarrow> node list option \<Rightarrow> string \<Rightarrow> data \<Rightarrow> error + node list \<times> bool" where
  "executeAttrIf n sibs field d =
     (if d field = Some (VBool True) then Inr ([], False)
      else (case sibs of None \<Rightarrow> Inl NilPointer | Some right \<Rightarrow> Inr (right, True)))"

text \<open>The model directive changes the node and the listeners before it looks the field
  up, so its result is the node and the state as it leaves them, with the panic if any.\<close>

definition executeAttrModel ::
  "node \<Rightarrow> string \<Rightarrow> tmpl_state \<Rightarrow> (node \<times> tmpl_state) \<times> error option" where
  "executeAttrModel n field st =
     (let typ = ''input'';
          n1 = appendAttr n (Attribute [] typ field);
          st1 = addEventListener typ vModelHandler st
      in case data st field of
           None \<Rightarrow> ((n1, st1), Some (UnknownDataField field))
         | Some value \<Rightarrow>
             (case value of
                VStr s \<Rightarrow> ((appendAttr n1 (Attribute [] ''value'' s), st1), None)
              | _ \<Rightarrow> ((n1, st1), Some DataFieldNotString)))"

definition executeAttrOn :: "node \<Rightarrow> string \<Rightarrow> string \<Rightarrow> tmpl_state \<Rightarrow> node \<times> tmpl_state" where
  "executeAttrOn n typ method st =
     (appendAttr n (Attribute [] typ method), addEventListener typ vOnHandler st)"

text \<open>What the dispatcher leaves: the node, the subcomponent, the state, and the pair
  \<open>(next, modified)\<close> it returns.\<close>

datatype outcome =
  Outcome (node_of: node) (sub_of: "comp option") (state_of: tmpl_state)
    (next_of: "node list") (modified_of: bool)

definition executeAttr ::
  "env \<Rightarrow> node \<Rightarrow> comp option \<Rightarrow> attribute \<Rightarrow> node list option \<Rightarrow> tmpl_state
     \<Rightarrow> error + outcome" where
  "executeAttr e n sub attr sibs st =
     (case Split (Key attr) '':'' of
        [] \<Rightarrow> Inl IndexOutOfRange
      | typ # rest \<Rightarrow>
          (let part = (case rest of [] \<Rightarrow> [] | p # _ \<Rightarrow> p)
           in if typ = vBind then
                (case executeAttrBind e n sub part (Val attr) (data st) of
                   Inl x \<Rightarrow> Inl x
                 | Inr (n', sub') \<Rightarrow> Inr (Outcome n' sub' st [] False))
              else if typ = vFor then
                (case executeAttrFor e n sibs (Val attr) st of
                   Inl x \<Rightarrow> Inl x
                 | Inr (next, modified, st') \<Rightarrow> Inr (Outcome n sub st' next modified))
              else if typ = vHtml then
                (case executeAttrHtml e n (Val attr) (data st) of
                   Inl x \<Rightarrow> Inl x
                 | Inr n' \<Rightarrow> Inr (Outcome n' sub st [] False))
              else if typ = vIf then
                (case executeAttrIf n sibs (Val attr) (data st) of
                   Inl x \<Rightarrow> Inl x
                 | Inr (next, modified) \<Rightarrow> Inr (Outcome n sub st next modified))
              else if typ = vModel then
                (case executeAttrModel n (Val attr) st of
                   (_, Some x) \<Rightarrow> Inl x
                 | ((n', st'), None) \<Rightarrow> Inr (Outcome n' sub st' [] False))
              else if typ = vOn then
                (case executeAttrOn n part (Val attr) st of
                   (n', st') \<Rightarrow> Inr (Outcome n' sub st' [] False))
              else Inl (UnknownVueAttribute typ)))"

section \<open>The attribute loop of an element\<close>

text \<open>
  The loop deletes the first directive attribute at or after index \<open>i\<close> and dispatches
  it; a handler may append attributes, which the loop reaches later. It ends: the key of an
  appended attribute is the part after the colon of the directive's key, which has no colon
  of its own, so that executing it appends no directive in turn. \<open>weight\<close> counts the
  dispatches a key can still cause.
\<close>

definition partOf :: "string \<Rightarrow> string" where
  "partOf k = (case Split k '':'' of _ # p # _ \<Rightarrow> p | _ \<Rightarrow> [])"

definition weight :: "string \<Rightarrow> nat" where
  "weight k = (if HasPrefix k v then (if HasPrefix (partOf k) v then 2 else 1) else 0)"

lemma SplitSep_colon_pieces:
  "CHR '':'' \<notin> set acc \<Longrightarrow> \<forall>p \<in> set (SplitSep '':'' 0 acc s). CHR '':'' \<notin> set p"
proof (induction s arbitrary: acc)
  case Nil
  then show ?case by simp
next
  case (Cons a s)
  have e: "\<forall>p \<in> set (SplitSep '':'' 0 [] s). CHR '':'' \<notin> set p"
    using Cons.IH[of "[]"] by simp
  have "a \<noteq> CHR '':'' \<Longrightarrow> \<forall>p \<in> set (SplitSep '':'' 0 (a # acc) s). CHR '':'' \<notin> set p"
    using Cons.IH[of "a # acc"] Cons.prems by simp
  with e Cons.prems show ?case by (simp add: HasPrefix_def)
qed

lemma SplitSep_no_colon:
  "CHR '':'' \<notin> set s \<Longrightarrow> SplitSep '':'' 0 acc s = [rev acc @ s]"
  by (induction s arbitrary: acc) (auto simp: HasPrefix_def)

lemma partOf_no_colon: "CHR '':'' \<notin> set (partOf k)"
proof -
  have "\<forall>p \<in> set (Split k '':''). CHR '':'' \<notin> set p"
    using SplitSep_colon_pieces[of "[]" k] by (simp add: Split_def)
  then show ?thesis
    by (cases "Split k '':''" rule: list.exhaust; cases "tl (Split k '':'')" rule: list.exhaust)
       (auto simp: partOf_def)
qed

lemma partOf_partOf: "partOf (partOf k) = []"
  using SplitSep_no_colon[OF partOf_no_colon, of "[]" k]
  by (simp add: partOf_def[of "partOf k"] Split_def)

lemma weight_partOf: "HasPrefix k v \<Longrightarrow> weight (partOf k) < weight k"
  by (auto simp: weight_def partOf_partOf HasPrefix_def v_def)

definition wsum :: "attribute list \<Rightarrow> nat" where
  "wsum attrs = sum_list (map (\<lambda>a. weight (Key a)) attrs)"

lemma wsum_simps [simp]:
  "wsum [] = 0" "wsum (a # as) = weight (Key a) + wsum as" "wsum (xs @ ys) = wsum xs + wsum ys"
  by (simp_all add: wsum_def)

lemma weight_plain [simp]: "weight ''input'' = 0" "weight ''value'' = 0"
  by (simp_all add: weight_def HasPrefix_def v_def)

lemma executeAttr_unmodified:
  assumes "executeAttr e n sub attr sibs st = Inr out" and "\<not> modified_of out"
  shows "\<exists>extra. Attr (node_of out) = Attr n @ extra \<and> wsum extra \<le> weight (partOf (Key attr))
           \<and> Type (node_of out) = Type n \<and> Data (node_of out) = Data n"
  using assms
  by (auto simp: executeAttr_def partOf_def Let_def executeAttrBind_def executeAttrFor_def
        executeAttrHtml_def executeAttrIf_def executeAttrModel_def executeAttrOn_def
        appendAttr_def setChildren_def
      split: list.splits if_splits sum.splits option.splits prod.splits val.splits)

function attrLoop ::
  "env \<Rightarrow> nat \<Rightarrow> node \<Rightarrow> comp option \<Rightarrow> node list option \<Rightarrow> tmpl_state \<Rightarrow> error + outcome" where
  "attrLoop e i n sub sibs st =
     (if i < length (Attr n) then
        (let attr = Attr n ! i
         in if HasPrefix (Key attr) v then
              (case executeAttr e (setAttr n (deleteAttr (Attr n) i)) sub attr sibs st of
                 Inl x \<Rightarrow> Inl x
               | Inr out \<Rightarrow>
                   if modified_of out then Inr out
                   else attrLoop e i (node_of out) (sub_of out) sibs (state_of out))
            else attrLoop e (i + 1) n sub sibs st)
      else Inr (Outcome n sub st [] False))"
  by pat_completeness auto
termination
proof (relation "measures [\<lambda>(e, i, n, sub, sibs, st). wsum (drop i (Attr n)),
                           \<lambda>(e, i, n, sub, sibs, st). length (Attr n) - i]", goal_cases)
  case 1
  then show ?case by simp
next
  case (2 e i n sub sibs st attr out)
  obtain extra where x: "Attr (node_of out) = Attr (setAttr n (deleteAttr (Attr n) i)) @ extra"
      "wsum extra \<le> weight (partOf (Key attr))"
    using executeAttr_unmodified[OF 2(4) 2(5)] by blast
  have "weight (partOf (Key attr)) < weight (Key attr)"
    using 2(3) by (rule weight_partOf)
  moreover have "drop i (Attr n) = attr # drop (Suc i) (Attr n)"
    using 2(1,2) by (simp add: Cons_nth_drop_Suc)
  ultimately show ?case
    using x 2(1) by (simp add: setAttr_def deleteAttr_def)
next
  case (3 e i n sub sibs st attr)
  have "drop i (Attr n) = attr # drop (Suc i) (Attr n)"
    using 3(1,2) by (simp add: Cons_nth_drop_Suc)
  then show ?case
    using 3 by (simp add: weight_def)
qed

declare attrLoop.simps [simp del]

section \<open>The traversal\<close>

text \<open>
  \<open>executeElement\<close> returns the next node to execute; in the model that is the chain
  \<open>next\<close>, and \<open>placed\<close> are the nodes that now stand in the parent's list in place of the
  node and before \<open>next\<close>: the node itself with its children executed, nothing when a directive
  removed or expanded it (the produced nodes are then the head of \<open>next\<close>), or the children
  of an executed subcomponent. A for or html directive can produce nodes that carry directives
  again, so the recursion is bounded by \<open>fuel\<close>; \<open>None\<close> is a run that needs more.
\<close>

fun executeElement ::
    "env \<Rightarrow> nat \<Rightarrow> node \<Rightarrow> node list option \<Rightarrow> tmpl_state
       \<Rightarrow> (error + node list \<times> node list \<times> tmpl_state) option"
  and executeChildren ::
    "env \<Rightarrow> nat \<Rightarrow> node list \<Rightarrow> tmpl_state \<Rightarrow> (error + node list \<times> tmpl_state) option"
  where
  "executeElement e 0 n sibs st = None"
| "executeElement e (Suc fuel) n sibs st =
     (let nextSibling = (case sibs of None \<Rightarrow> [] | Some right \<Rightarrow> right)
      in if Type n \<noteq> ElementNode then Some (Inr ([n], nextSibling, st))
         else
           (case attrLoop e 0 (setAttr n (orderAttrs (Attr n))) (newSub e (Data n)) sibs st of
              Inl x \<Rightarrow> Some (Inl x)
            | Inr out \<Rightarrow>
                if modified_of out then Some (Inr ([], next_of out, state_of out))
                else
                  (case sub_of out of
                     Some sub \<Rightarrow>
                       (case executeSub e sub of
                          Inl x \<Rightarrow> Some (Inl x)
                        | Inr subNode \<Rightarrow>
                            (case sibs of
                               None \<Rightarrow> Some (Inl NilPointer)
                             | Some right \<Rightarrow> Some (Inr (Children subNode, right, state_of out))))
                   | None \<Rightarrow>
                       (case executeChildren e fuel (Children (node_of out)) (state_of out) of
                          None \<Rightarrow> None
                        | Some (Inl x) \<Rightarrow> Some (Inl x)
                        | Some (Inr (cs, st')) \<Rightarrow>
                            Some (Inr ([setChildren (node_of out) cs], nextSibling, st'))))))"
| "executeChildren e 0 cs st = None"
| "executeChildren e (Suc fuel) [] st = Some (Inr ([], st))"
| "executeChildren e (Suc fuel) (child # right) st =
     (case executeElement e fuel child (Some right) st of
        None \<Rightarrow> None
      | Some (Inl x) \<Rightarrow> Some (Inl x)
      | Some (Inr (placed, next, st')) \<Rightarrow>
          (case executeChildren e fuel next st' of
             None \<Rightarrow> None
           | Some (Inl x) \<Rightarrow> Some (Inl x)
           | Some (Inr (rest, st'')) \<Rightarrow> Some (Inr (placed @ rest, st''))))"

fun executeText :: "env \<Rightarrow> node \<Rightarrow> data \<Rightarrow> error + node"
  and executeTexts :: "env \<Rightarrow> node list \<Rightarrow> data \<Rightarrow> error + node list" where
  "executeText e (Node ty d attrs cs) dat =
     (if ty = TextNode then
        (if TrimSpace d = [] then Inr (Node ty d attrs cs)
         else (case MustacheRender e d dat of
                 Inl m \<Rightarrow> Inl (MustacheError m)
               | Inr s \<Rightarrow> Inr (Node ty s attrs cs)))
      else if ty = ElementNode then
        (case executeTexts e cs dat of
           Inl x \<Rightarrow> Inl x
         | Inr cs' \<Rightarrow> Inr (Node ty d attrs cs'))
      else Inr (Node ty d attrs cs))"
| "executeTexts e [] dat = Inr []"
| "executeTexts e (c # cs) dat =
     (case executeText e c dat of
        Inl x \<Rightarrow> Inl x
      | Inr c' \<Rightarrow>
          (case executeTexts e cs dat of
             Inl x \<Rightarrow> Inl x
           | Inr cs' \<Rightarrow> Inr (c' # cs')))"

definition execute :: "env \<Rightarrow> nat \<Rightarrow> string \<Rightarrow> tmpl_state \<Rightarrow> (error + node \<times> tmpl_state) option" where
  \<comment> \<open>the root placeholder has no parent; it stays in place (\<open>placed\<close> is the root alone,
      lemma \<open>executeElement_root\<close>), and the text pass runs on it\<close>
  "execute e fuel tmpl st =
     (case parseNode e tmpl of
        Inl x \<Rightarrow> Some (Inl x)
      | Inr n \<Rightarrow>
          (case executeElement e fuel n None st of
             None \<Rightarrow> None
           | Some (Inl x) \<Rightarrow> Some (Inl x)
           | Some (Inr (placed, next, st')) \<Rightarrow>
               (case executeText e (case placed of [] \<Rightarrow> n | root # _ \<Rightarrow> root) (data st') of
                  Inl x \<Rightarrow> Some (Inl x)
                | Inr root' \<Rightarrow> Some (Inr (root', st')))))"

section \<open>Concrete collaborators for the worked examples\<close>

text \<open>An environment with no subcomponent, a parser that finds no node, a serialiser that
  writes nothing, and a mustache engine and a title function that return their input. The worked examples below
  override the fields they exercise.\<close>

definition stubEnv :: env where
  "stubEnv = \<lparr>ParseFragment = (\<lambda>s. Inr []), Render = (\<lambda>n. Inr []),
     MustacheRender = (\<lambda>s d. Inr s), newSub = (\<lambda>t. None),
     executeSub = (\<lambda>c. Inl (SubError [])), TitleUnicode = (\<lambda>s. s)\<rparr>"

lemma stubEnv_simps [simp]:
  "ParseFragment stubEnv = (\<lambda>s. Inr [])" "Render stubEnv = (\<lambda>n. Inr [])"
  "MustacheRender stubEnv = (\<lambda>s d. Inr s)" "newSub stubEnv = (\<lambda>t. None)"
  "executeSub stubEnv = (\<lambda>c. Inl (SubError []))" "TitleUnicode stubEnv = (\<lambda>s. s)"
  by (simp_all add: stubEnv_def)

lemmas const_defs = v_def vBind_def vFor_def vHtml_def vIf_def vModel_def vOn_def attrOrder_def

section \<open>The Attribute Orderer\<close>

text \<open>The order of the six directives of the specification's example.\<close>

lemma orderAttrs_example:
  "orderAttrs [Attribute [] ''v-bind:x'' ''X'', Attribute [] ''v-if'' ''B'',
               Attribute [] ''v-on:click'' ''M'', Attribute [] ''v-for'' ''I in Is'',
               Attribute [] ''v-html'' ''H'', Attribute [] ''v-model'' ''S'']
     = [Attribute [] ''v-for'' ''I in Is'', Attribute [] ''v-if'' ''B'',
        Attribute [] ''v-model'' ''S'', Attribute [] ''v-on:click'' ''M'',
        Attribute [] ''v-bind:x'' ''X'', Attribute [] ''v-html'' ''H'']"
  by (simp add: orderAttrs_def const_defs HasPrefix_def)

text \<open>
  Claim C3. The orderer is to return a permutation of the authored attributes: the known
  directives in priority order, then every remaining attribute. On the authored list
  \<open>v-show="Seen" id="a"\<close> it returns \<open>id="a"\<close> alone: an attribute whose key starts with
  \<open>v-\<close> and with none of the six known prefixes is in neither loop of \<open>orderAttrs\<close>, and
  is lost.
\<close>

theorem C3_orderAttrs_drops_unknown_directive:
  "orderAttrs [Attribute [] ''v-show'' ''Seen'', Attribute [] ''id'' ''a'']
     = [Attribute [] ''id'' ''a'']"
  by (simp add: orderAttrs_def const_defs HasPrefix_def)

section \<open>Unknown directives\<close>

text \<open>A key that extends a known prefix reaches the dispatcher, whose default case raises
  the error.\<close>

lemma unknown_kind_reaches_default:
  "executeElement (e\<lparr>newSub := \<lambda>t. None\<rparr>) (Suc (Suc 0))
       (Node ElementNode ''p'' [Attribute [] ''v-format'' ''Seen''] []) (Some right) st
     = Some (Inl (UnknownVueAttribute ''v-format''))"
  by (simp add: orderAttrs_def const_defs HasPrefix_def setAttr_def attrLoop.simps
      executeAttr_def Split_def deleteAttr_def)

text \<open>
  Claim C4. An attribute with the directive prefix and a kind that is none of the six is to
  raise the unknown-directive error when the element is executed. For the element
  \<open><p v-show="Seen">\<close> the orderer has dropped the attribute before the loop looks for
  directives: the loop dispatches nothing, and the element is executed without an error
  and stays in the tree without the attribute.
\<close>

theorem C4_unknown_directive_discarded:
  "attrLoop e 0 (setAttr (Node ElementNode ''p'' [Attribute [] ''v-show'' ''Seen''] [])
       (orderAttrs [Attribute [] ''v-show'' ''Seen''])) sub sibs st
     = Inr (Outcome (Node ElementNode ''p'' [] []) sub st [] False)
   \<and> executeElement (e\<lparr>newSub := \<lambda>t. None\<rparr>) (Suc (Suc 0))
       (Node ElementNode ''p'' [Attribute [] ''v-show'' ''Seen''] []) (Some right) st
     = Some (Inr ([Node ElementNode ''p'' [] []], right, st))"
  by (simp add: orderAttrs_def const_defs HasPrefix_def setAttr_def attrLoop.simps setChildren_def)

section \<open>Dispatching one directive\<close>

text \<open>At a directive attribute the loop deletes it and dispatches it; a panic of the
  handler is the panic of the loop and of the element.\<close>

lemma attrLoop_dispatch:
  assumes "i < length (Attr n)" and "HasPrefix (Key (Attr n ! i)) v"
  shows "attrLoop e i n sub sibs st =
     (case executeAttr e (setAttr n (deleteAttr (Attr n) i)) sub (Attr n ! i) sibs st of
        Inl x \<Rightarrow> Inl x
      | Inr out \<Rightarrow>
          if modified_of out then Inr out
          else attrLoop e i (node_of out) (sub_of out) sibs (state_of out))"
  using assms by (subst attrLoop.simps) simp

lemma executeAttr_bind_absent:
  "data st field = None \<Longrightarrow>
   executeAttr e n sub (Attribute ns (vBind @ '':'' @ prop) field) sibs st
     = Inl (UnknownDataField field)"
  by (simp add: executeAttr_def Split_def HasPrefix_def const_defs executeAttrBind_def Let_def)

lemma executeAttr_html_absent:
  "data st field = None \<Longrightarrow>
   executeAttr e n sub (Attribute ns vHtml field) sibs st = Inl (UnknownDataField field)"
  by (simp add: executeAttr_def Split_def HasPrefix_def const_defs executeAttrHtml_def)

lemma executeAttr_model_absent:
  "data st field = None \<Longrightarrow>
   executeAttr e n sub (Attribute ns vModel field) sibs st = Inl (UnknownDataField field)"
  by (simp add: executeAttr_def Split_def HasPrefix_def const_defs executeAttrModel_def
      addEventListener_def Let_def)

lemma executeAttr_if:
  "executeAttr e n sub (Attribute ns vIf field) sibs st =
     (if data st field = Some (VBool True) then Inr (Outcome n sub st [] False)
      else (case sibs of None \<Rightarrow> Inl NilPointer
            | Some right \<Rightarrow> Inr (Outcome n sub st right True)))"
  by (simp add: executeAttr_def Split_def HasPrefix_def const_defs executeAttrIf_def
      split: option.splits)

lemma directive_keys_prefixed:
  "HasPrefix (vBind @ '':'' @ prop) v" "HasPrefix vHtml v" "HasPrefix vModel v" "HasPrefix vIf v"
  "HasPrefix vFor v" "HasPrefix vOn v"
  by (simp_all add: HasPrefix_def const_defs)

lemma executeElement_attrLoop_error:
  "Type n = ElementNode \<Longrightarrow>
   attrLoop e 0 (setAttr n (orderAttrs (Attr n))) (newSub e (Data n)) sibs st = Inl x \<Longrightarrow>
   executeElement e (Suc fuel) n sibs st = Some (Inl x)"
  by simp

lemma executeChildren_error:
  "executeElement e fuel child (Some right) st = Some (Inl x) \<Longrightarrow>
   executeChildren e (Suc fuel) (child # right) st = Some (Inl x)"
  by simp

lemma executeElement_if_false:
  assumes "Type n = ElementNode" and "orderAttrs (Attr n) = Attribute ns vIf field # rest"
    and "data st field \<noteq> Some (VBool True)"
  shows "executeElement e (Suc fuel) n (Some right) st = Some (Inr ([], right, st))"
  using assms directive_keys_prefixed(4)
  by (simp add: attrLoop_dispatch setAttr_def executeAttr_if)

section \<open>The if directive\<close>

text \<open>
  Claim C7. A dispatched if directive whose field is true in the data leaves the node, its
  children, the subcomponent and the state as they are and reports no modification. When
  the field is false the dispatch returns the former next sibling with the modification
  flag, and the element whose first directive it is leaves nothing in its parent's list:
  the traversal goes on with the siblings after it.
\<close>

theorem C7_if_true_keeps_false_removes:
  "(data st field = Some (VBool True) \<longrightarrow>
      executeAttr e n sub (Attribute ns vIf field) sibs st = Inr (Outcome n sub st [] False))
   \<and> (data st field = Some (VBool False) \<longrightarrow>
      executeAttr e n sub (Attribute ns vIf field) (Some right) st
        = Inr (Outcome n sub st right True)
      \<and> (Type n = ElementNode \<and> orderAttrs (Attr n) = Attribute ns vIf field # rest \<longrightarrow>
           executeElement e (Suc fuel) n (Some right) st = Some (Inr ([], right, st))))"
proof (intro conjI impI)
  assume "data st field = Some (VBool True)"
  then show "executeAttr e n sub (Attribute ns vIf field) sibs st = Inr (Outcome n sub st [] False)"
    by (simp add: executeAttr_if)
next
  assume "data st field = Some (VBool False)"
  then show "executeAttr e n sub (Attribute ns vIf field) (Some right) st
      = Inr (Outcome n sub st right True)"
    by (simp add: executeAttr_if)
next
  assume "data st field = Some (VBool False)"
    and "Type n = ElementNode \<and> orderAttrs (Attr n) = Attribute ns vIf field # rest"
  then show "executeElement e (Suc fuel) n (Some right) st = Some (Inr ([], right, st))"
    by (intro executeElement_if_false) auto
qed

theorem C7_if_true_keeps_false_removes_witness:
  "executeAttr stubEnv (Node ElementNode ''p'' [] [Node TextNode ''hi'' [] []]) None
       (Attribute [] vIf ''Seen'') (Some [Node ElementNode ''b'' [] []])
       \<lparr>tmpl_id = 0, data = [''Seen'' \<mapsto> VBool True], listeners = []\<rparr>
     = Inr (Outcome (Node ElementNode ''p'' [] [Node TextNode ''hi'' [] []]) None
         \<lparr>tmpl_id = 0, data = [''Seen'' \<mapsto> VBool True], listeners = []\<rparr> [] False)
   \<and> executeElement stubEnv (Suc 0)
       (Node ElementNode ''p'' [Attribute [] ''id'' ''a'', Attribute [] ''v-if'' ''Seen'']
          [Node TextNode ''hi'' [] []])
       (Some [Node ElementNode ''b'' [] []])
       \<lparr>tmpl_id = 0, data = [''Seen'' \<mapsto> VBool False], listeners = []\<rparr>
     = Some (Inr ([], [Node ElementNode ''b'' [] []],
         \<lparr>tmpl_id = 0, data = [''Seen'' \<mapsto> VBool False], listeners = []\<rparr>))"
  using C7_if_true_keeps_false_removes[where
      st = "\<lparr>tmpl_id = 0, data = [''Seen'' \<mapsto> VBool True], listeners = []\<rparr>"
      and field = "''Seen''" and e = stubEnv
      and n = "Node ElementNode ''p'' [] [Node TextNode ''hi'' [] []]" and sub = None and ns = "[]"
      and sibs = "Some [Node ElementNode ''b'' [] []]" and right = "[Node ElementNode ''b'' [] []]"
      and rest = "[]" and fuel = 0]
    C7_if_true_keeps_false_removes[where
      st = "\<lparr>tmpl_id = 0, data = [''Seen'' \<mapsto> VBool False], listeners = []\<rparr>"
      and field = "''Seen''" and e = stubEnv
      and n = "Node ElementNode ''p'' [Attribute [] ''id'' ''a'', Attribute [] ''v-if'' ''Seen'']
          [Node TextNode ''hi'' [] []]" and sub = None and ns = "[]"
      and sibs = "Some [Node ElementNode ''b'' [] []]" and right = "[Node ElementNode ''b'' [] []]"
      and rest = "[Attribute [] ''id'' ''a'']" and fuel = 0]
  by (simp add: orderAttrs_def const_defs HasPrefix_def)

section \<open>The model directive\<close>

text \<open>
  Claim C6, as stated: a model directive whose field is absent raises the error before it
  appends an attribute or registers a handler. It fails on an input element with no
  attribute and the absent field \<open>Message\<close>: when the panic is raised the node carries
  the marker attribute \<open>input\<close> and the handler is registered.
\<close>

theorem C6_model_marker_before_lookup:
  "executeAttrModel (Node ElementNode ''input'' [] []) ''Message''
       \<lparr>tmpl_id = 0, data = Map.empty, listeners = []\<rparr>
     = ((Node ElementNode ''input'' [Attribute [] ''input'' ''Message''] [],
         \<lparr>tmpl_id = 0, data = Map.empty, listeners = [(''input'', vModelHandler)]\<rparr>),
        Some (UnknownDataField ''Message''))"
  by (simp add: executeAttrModel_def appendAttr_def addEventListener_def Let_def)

text \<open>
  Claim C6, amended. The model directive first appends the marker attribute \<open>input\<close> with
  the field name and registers its handler for the \<open>input\<close> event, in every case. Then it
  looks the field up: when the field is absent or not a string it panics with the lookup
  error and the value attribute is not appended; when the field is a string the value
  attribute is appended after the marker. Nothing else of the node changes.
\<close>

theorem C6_model_effects:
  "(case executeAttrModel n field st of
      ((n', st'), r) \<Rightarrow>
        st' = st\<lparr>listeners := listeners st @ [(''input'', vModelHandler)]\<rparr>
        \<and> Type n' = Type n \<and> Data n' = Data n \<and> Children n' = Children n
        \<and> (case data st field of
              Some (VStr s) \<Rightarrow>
                r = None
                \<and> Attr n' = Attr n @ [Attribute [] ''input'' field, Attribute [] ''value'' s]
            | Some _ \<Rightarrow> r = Some DataFieldNotString \<and> Attr n' = Attr n @ [Attribute [] ''input'' field]
            | None \<Rightarrow>
                r = Some (UnknownDataField field)
                \<and> Attr n' = Attr n @ [Attribute [] ''input'' field]))"
  by (simp add: executeAttrModel_def appendAttr_def addEventListener_def Let_def
      split: option.splits val.splits)

theorem C6_model_effects_witness:
  "executeAttrModel (Node ElementNode ''input'' [Attribute [] ''id'' ''m''] []) ''Message''
       \<lparr>tmpl_id = 0, data = [''Message'' \<mapsto> VStr ''hi''], listeners = []\<rparr>
     = ((Node ElementNode ''input''
           [Attribute [] ''id'' ''m'', Attribute [] ''input'' ''Message'',
            Attribute [] ''value'' ''hi''] [],
         \<lparr>tmpl_id = 0, data = [''Message'' \<mapsto> VStr ''hi''],
            listeners = [(''input'', vModelHandler)]\<rparr>), None)"
  using C6_model_effects[where n = "Node ElementNode ''input'' [Attribute [] ''id'' ''m''] []"
      and field = "''Message''"
      and st = "\<lparr>tmpl_id = 0, data = [''Message'' \<mapsto> VStr ''hi''], listeners = []\<rparr>"]
  by (cases "executeAttrModel (Node ElementNode ''input'' [Attribute [] ''id'' ''m''] [])
        ''Message'' \<lparr>tmpl_id = 0, data = [''Message'' \<mapsto> VStr ''hi''], listeners = []\<rparr>")
     (auto intro: node.expand)

section \<open>The for directive on an empty sequence\<close>

text \<open>
  Claim C2. On a sequence with no element the for directive is to resume at the former next
  sibling. The code writes nothing to the buffer, parses no node from it, removes the
  original node and then reads \<open>nodes[0]\<close>: the index is out of range, and the
  execution panics. (The parser returns no node for an empty input.)
\<close>

theorem C2_for_empty_sequence:
  assumes "Split value ''in'' = v0 # v1 # vs"
    and "data st (TrimSpace v1) = Some (VSlice [])"
    and "Render e n = Inr elem"
    and "ParseFragment e [] = Inr []"
  shows "executeAttrFor e n (Some right) value st = Inl IndexOutOfRange"
  using assms by (simp add: executeAttrFor_def Let_def reflectElems_def parseNodes_def)

theorem C2_for_empty_sequence_witness:
  "executeAttrFor stubEnv (Node ElementNode ''li'' [] []) (Some [Node ElementNode ''p'' [] []])
       ''Item in Items'' \<lparr>tmpl_id = 0, data = [''Items'' \<mapsto> VSlice []], listeners = []\<rparr>
     = Inl IndexOutOfRange"
proof -
  have s: "Split ''Item in Items'' ''in'' = [''Item '', '' Items'']"
    by (simp add: Split_def HasPrefix_def)
  have t: "TrimSpace '' Items'' = ''Items''"
    by code_simp
  show ?thesis
    using C2_for_empty_sequence[of "''Item in Items''" "''Item ''" "'' Items''" "[]"
        "\<lparr>tmpl_id = 0, data = [''Items'' \<mapsto> VSlice []], listeners = []\<rparr>" stubEnv
        "Node ElementNode ''li'' [] []" "[]" "[Node ElementNode ''p'' [] []]"]
    by (simp add: s t)
qed

section \<open>The expression of the for directive\<close>

text \<open>
  Claim C5. The expression \<open>var in field\<close> is to yield the loop variable \<open>var\<close> and the field
  \<open>field\<close> for all names, also names that contain the letters \<open>in\<close>. The code splits the
  expression at every occurrence of the two letters and takes the first two pieces. For
  \<open>line in lines\<close>, with the field \<open>lines\<close> present in the data, the pieces are \<open>l\<close>,
  \<open>e \<close>, \<open> l\<close> and \<open>es\<close>: the loop variable is \<open>l\<close> and the field looked up is \<open>e\<close>, which
  is not found, so the execution panics.
\<close>

theorem C5_for_expression_cut_at_in:
  "Split ''line in lines'' ''in'' = [''l'', ''e '', '' l'', ''es'']
   \<and> executeAttrFor stubEnv (Node ElementNode ''li'' [] []) (Some []) ''line in lines''
       \<lparr>tmpl_id = 0, data = [''lines'' \<mapsto> VSlice [VStr ''a'']], listeners = []\<rparr>
     = Inl (SliceNotFound ''e'')"
proof -
  have s: "Split ''line in lines'' ''in'' = [''l'', ''e '', '' l'', ''es'']"
    by (simp add: Split_def HasPrefix_def)
  have t: "TrimSpace ''l'' = ''l''" "TrimSpace ''e '' = ''e''"
    by code_simp+
  show ?thesis
    by (simp add: executeAttrFor_def s t Let_def)
qed

section \<open>The synthetic keys of the for directive\<close>

text \<open>
  Claim C8. The keys that the for expansions of one execution generate are to be pairwise
  distinct. A key is the loop variable followed by the decimal id, with nothing between
  them: for two sibling loops, \<open>Item1 in A\<close> over one element and then \<open>Item in B\<close> over
  eleven, the first loop binds \<open>Item10\<close> (variable \<open>Item1\<close>, id 0) and the second loop binds
  \<open>Item10\<close> again (variable \<open>Item\<close>, id 10), over the first binding. Twelve iterations
  leave eleven keys.
\<close>

theorem C8_keys_of_two_loops_collide:
  "(case executeAttrFor (stubEnv\<lparr>ParseFragment := \<lambda>s. Inr [Node TextNode s [] []]\<rparr>)
           (Node ElementNode ''p'' [] []) (Some []) ''Item1 in A''
           \<lparr>tmpl_id = 0,
              data = [''A'' \<mapsto> VSlice [VStr ''a''],
                      ''B'' \<mapsto> VSlice [VInt 0, VInt 1, VInt 2, VInt 3, VInt 4, VInt 5, VInt 6,
                                      VInt 7, VInt 8, VInt 9, VInt 10]],
              listeners = []\<rparr> of
      Inl x \<Rightarrow> False
    | Inr (next1, modified1, st1) \<Rightarrow>
        tmpl_id st1 = 1 \<and> data st1 ''Item10'' = Some (VStr ''a'')
        \<and> (case executeAttrFor (stubEnv\<lparr>ParseFragment := \<lambda>s. Inr [Node TextNode s [] []]\<rparr>)
                 (Node ElementNode ''p'' [] []) (Some []) ''Item in B'' st1 of
             Inl x \<Rightarrow> False
           | Inr (next2, modified2, st2) \<Rightarrow>
               tmpl_id st2 = 12 \<and> data st2 ''Item10'' = Some (VInt 9)))"
  by code_simp

section \<open>The text pass\<close>

text \<open>\<open>hasPlaceholder s\<close>: an opening double brace occurs in \<open>s\<close>. \<open>rendered n\<close>: no text
  node of the tree \<open>n\<close> contains one.\<close>

fun hasPlaceholder :: "string \<Rightarrow> bool" where
  "hasPlaceholder [] = False"
| "hasPlaceholder (c # cs) = (HasPrefix (c # cs) ''{{'' \<or> hasPlaceholder cs)"

fun rendered :: "node \<Rightarrow> bool" where
  "rendered (Node ty d attrs cs) =
     ((ty = TextNode \<longrightarrow> \<not> hasPlaceholder d) \<and> (\<forall>c \<in> set cs. rendered c))"

lemma executeText_rendered:
  "(\<forall>s d. \<not> hasPlaceholder s \<longrightarrow> MustacheRender e s d = Inr s) \<Longrightarrow> rendered n \<Longrightarrow>
     executeText e n dat = Inr n"
  "(\<forall>s d. \<not> hasPlaceholder s \<longrightarrow> MustacheRender e s d = Inr s) \<Longrightarrow>
     \<forall>c \<in> set ns. rendered c \<Longrightarrow> executeTexts e ns dat = Inr ns"
proof (induction e n dat and e ns dat rule: executeText_executeTexts.induct)
  case (1 e ty d attrs cs dat)
  then show ?case by auto
next
  case (2 e dat)
  show ?case by simp
next
  case (3 e c cs dat)
  then show ?case by simp
qed

text \<open>
  Claim C9. The mustache engine is outside the template; it returns a text without
  placeholder as it is. Then the text pass over a tree in which no text node contains a
  placeholder returns the tree unchanged, without an error: a second pass over a rendered
  tree changes no node.
\<close>

theorem C9_text_pass_on_rendered_tree:
  assumes "\<forall>s d. \<not> hasPlaceholder s \<longrightarrow> MustacheRender e s d = Inr s"
    and "rendered n"
  shows "executeText e n dat = Inr n"
  using assms by (rule executeText_rendered(1))

theorem C9_text_pass_on_rendered_tree_witness:
  "executeText
       (stubEnv\<lparr>MustacheRender := \<lambda>s d. if hasPlaceholder s then Inl ''tag'' else Inr s\<rparr>)
       (Node ElementNode ''p'' [Attribute [] ''id'' ''{{a}}'']
          [Node TextNode ''Hello { world }'' [] [], Node TextNode ''  '' [] [],
           Node ElementNode ''b'' [] [Node TextNode ''a'' [] []]])
       [''a'' \<mapsto> VStr ''x'']
     = Inr (Node ElementNode ''p'' [Attribute [] ''id'' ''{{a}}'']
          [Node TextNode ''Hello { world }'' [] [], Node TextNode ''  '' [] [],
           Node ElementNode ''b'' [] [Node TextNode ''a'' [] []]])"
  using C9_text_pass_on_rendered_tree[where
      e = "stubEnv\<lparr>MustacheRender := \<lambda>s d. if hasPlaceholder s then Inl ''tag'' else Inr s\<rparr>"
      and n = "Node ElementNode ''p'' [Attribute [] ''id'' ''{{a}}'']
          [Node TextNode ''Hello { world }'' [] [], Node TextNode ''  '' [] [],
           Node ElementNode ''b'' [] [Node TextNode ''a'' [] []]]"
      and dat = "[''a'' \<mapsto> VStr ''x'']"]
  by (simp add: HasPrefix_def)

section \<open>No directive attribute in the output\<close>

text \<open>\<open>plain attrs\<close>: no key of \<open>attrs\<close> starts with \<open>v-\<close>. \<open>clean n\<close>: every element of
  the tree \<open>n\<close> has plain attributes. (Only elements have children in a parsed tree, and
  the traversal descends into elements only.)\<close>

definition plain :: "attribute list \<Rightarrow> bool" where
  "plain attrs = (\<forall>a \<in> set attrs. \<not> HasPrefix (Key a) v)"

fun clean :: "node \<Rightarrow> bool" where
  "clean (Node ty d attrs cs) = (ty = ElementNode \<longrightarrow> plain attrs \<and> (\<forall>c \<in> set cs. clean c))"


text \<open>A node without a parent is never reported as modified: the if and the for directive
  panic on the nil parent instead.\<close>

lemma executeAttr_no_parent:
  "executeAttr e n sub attr None st = Inr out \<Longrightarrow> \<not> modified_of out"
  by (auto simp: executeAttr_def Let_def executeAttrFor_def executeAttrIf_def
      split: list.splits if_splits sum.splits option.splits prod.splits)

lemma attrLoop_no_parent:
  "attrLoop e i n sub sibs st = Inr out \<Longrightarrow> sibs = None \<Longrightarrow> \<not> modified_of out"
proof (induction e i n sub sibs st rule: attrLoop.induct)
  case (1 e i n sub sibs st)
  show ?case
  proof (cases "i < length (Attr n)")
    case False
    then show ?thesis using "1.prems" by (auto simp: attrLoop.simps[of e i n])
  next
    case True
    show ?thesis
    proof (cases "HasPrefix (Key (Attr n ! i)) v")
      case False
      then show ?thesis
        using True "1.IH"(2)[OF True refl False] "1.prems"
        by (simp add: attrLoop.simps[of e i n])
    next
      case hp: True
      show ?thesis
      proof (cases "executeAttr e (setAttr n (deleteAttr (Attr n) i)) sub (Attr n ! i) sibs st")
        case (Inl x)
        then show ?thesis
          using True hp "1.prems" by (simp add: attrLoop.simps[of e i n])
      next
        case (Inr o1)
        show ?thesis
        proof (cases "modified_of o1")
          case True
          then show ?thesis
            using Inr "1.prems"(2) executeAttr_no_parent by blast
        next
          case False
          then show ?thesis
            using True hp Inr "1.IH"(1)[OF True refl hp Inr False] "1.prems"
            by (simp add: attrLoop.simps[of e i n])
        qed
      qed
    qed
  qed
qed

lemma attrLoop_plain:
  "attrLoop e i n sub sibs st = Inr out \<Longrightarrow> \<not> modified_of out \<Longrightarrow> plain (take i (Attr n)) \<Longrightarrow>
     plain (Attr (node_of out)) \<and> Type (node_of out) = Type n"
proof (induction e i n sub sibs st rule: attrLoop.induct)
  case (1 e i n sub sibs st)
  show ?case
  proof (cases "i < length (Attr n)")
    case False
    then show ?thesis using "1.prems" by (auto simp: attrLoop.simps[of e i n])
  next
    case True
    show ?thesis
    proof (cases "HasPrefix (Key (Attr n ! i)) v")
      case False
      have "plain (take (i + 1) (Attr n))"
        using "1.prems"(3) False True by (simp add: plain_def take_Suc_conv_app_nth)
      then show ?thesis
        using True "1.IH"(2)[OF True refl False] "1.prems" False
        by (simp add: attrLoop.simps[of e i n])
    next
      case hp: True
      show ?thesis
      proof (cases "executeAttr e (setAttr n (deleteAttr (Attr n) i)) sub (Attr n ! i) sibs st")
        case (Inl x)
        then show ?thesis
          using True hp "1.prems" by (simp add: attrLoop.simps[of e i n])
      next
        case (Inr o1)
        show ?thesis
        proof (cases "modified_of o1")
          case m: True
          then show ?thesis
            using True hp Inr "1.prems" by (simp add: attrLoop.simps[of e i n])
        next
          case False
          obtain extra where x:
            "Attr (node_of o1) = Attr (setAttr n (deleteAttr (Attr n) i)) @ extra"
            "Type (node_of o1) = Type (setAttr n (deleteAttr (Attr n) i))"
            using executeAttr_unmodified[OF Inr False] by blast
          have "take i (Attr (node_of o1)) = take i (Attr n)"
            using x(1) True by (simp add: setAttr_def deleteAttr_def)
          then have "plain (take i (Attr (node_of o1)))"
            using "1.prems"(3) by simp
          moreover have "attrLoop e i (node_of o1) (sub_of o1) sibs (state_of o1) = Inr out"
            using True hp Inr False "1.prems"(1) by (simp add: attrLoop.simps[of e i n])
          ultimately show ?thesis
            using "1.IH"(1)[OF True refl hp Inr False] "1.prems"(2) x(2)
            by (simp add: setAttr_def)
        qed
      qed
    qed
  qed
qed

text \<open>The traversal, one step at a time.\<close>

declare executeElement.simps [simp del] executeChildren.simps [simp del]

lemma executeElement_other:
  "Type n \<noteq> ElementNode \<Longrightarrow>
   executeElement e (Suc fuel) n sibs st
     = Some (Inr ([n], (case sibs of None \<Rightarrow> [] | Some right \<Rightarrow> right), st))"
  by (simp add: Let_def executeElement.simps)

lemma executeElement_looped:
  assumes "Type n = ElementNode"
    and "attrLoop e 0 (setAttr n (orderAttrs (Attr n))) (newSub e (Data n)) sibs st = Inr out"
  shows "executeElement e (Suc fuel) n sibs st =
     (if modified_of out then Some (Inr ([], next_of out, state_of out))
      else
        (case sub_of out of
           Some sub \<Rightarrow>
             (case executeSub e sub of
                Inl x \<Rightarrow> Some (Inl x)
              | Inr subNode \<Rightarrow>
                  (case sibs of
                     None \<Rightarrow> Some (Inl NilPointer)
                   | Some right \<Rightarrow> Some (Inr (Children subNode, right, state_of out))))
         | None \<Rightarrow>
             (case executeChildren e fuel (Children (node_of out)) (state_of out) of
                None \<Rightarrow> None
              | Some (Inl x) \<Rightarrow> Some (Inl x)
              | Some (Inr (cs, st')) \<Rightarrow>
                  Some (Inr ([setChildren (node_of out) cs],
                    (case sibs of None \<Rightarrow> [] | Some right \<Rightarrow> right), st')))))"
  using assms by (simp add: Let_def executeElement.simps)

lemma executeElement_Inr_loop:
  assumes "Type n = ElementNode"
    and "executeElement e (Suc fuel) n sibs st = Some (Inr r)"
  shows "\<exists>out. attrLoop e 0 (setAttr n (orderAttrs (Attr n))) (newSub e (Data n)) sibs st = Inr out"
proof (cases "attrLoop e 0 (setAttr n (orderAttrs (Attr n))) (newSub e (Data n)) sibs st")
  case (Inl x)
  then show ?thesis using assms by (simp add: Let_def executeElement.simps)
next
  case (Inr out)
  then show ?thesis by simp
qed

lemma executeElement_clean_step:
  assumes sub: "\<forall>c sn. executeSub e c = Inr sn \<longrightarrow> (\<forall>m \<in> set (Children sn). clean m)"
    and IH: "\<And>cs st res st'. executeChildren e fuel cs st = Some (Inr (res, st')) \<Longrightarrow>
               \<forall>m \<in> set res. clean m"
    and r: "executeElement e (Suc fuel) n sibs st = Some (Inr (placed, nxt, st'))"
  shows "\<forall>m \<in> set placed. clean m"
proof (cases "Type n = ElementNode")
  case False
  have "placed = [n]"
    using r[unfolded executeElement_other[OF False]] by simp
  then show ?thesis using False by (cases n) simp
next
  case True
  obtain out where
    o: "attrLoop e 0 (setAttr n (orderAttrs (Attr n))) (newSub e (Data n)) sibs st = Inr out"
    using executeElement_Inr_loop[OF True r] by blast
  note r' = r[unfolded executeElement_looped[OF True o]]
  show ?thesis
  proof (cases "modified_of out")
    case True
    then have "placed = []" using r' by simp
    then show ?thesis by simp
  next
    case False
    have pl: "plain (Attr (node_of out))" and ty: "Type (node_of out) = ElementNode"
      using attrLoop_plain[OF o False] True by (simp_all add: plain_def setAttr_def)
    show ?thesis
    proof (cases "sub_of out")
      case (Some c)
      show ?thesis
      proof (cases "executeSub e c")
        case (Inl x)
        then show ?thesis using r' False Some by simp
      next
        case (Inr sn)
        then have "placed = Children sn"
          using r' False Some by (cases sibs) simp_all
        then show ?thesis using sub Inr by blast
      qed
    next
      case None
      show ?thesis
      proof (cases "executeChildren e fuel (Children (node_of out)) (state_of out)")
        case n: None
        then show ?thesis using r' False None by simp
      next
        case (Some res)
        show ?thesis
        proof (cases res)
          case (Inl x)
          then show ?thesis using r' False None Some by simp
        next
          case (Inr p)
          obtain cs st1 where p: "p = (cs, st1)" by (cases p)
          have "placed = [setChildren (node_of out) cs]"
            using r' False None Some Inr p by simp
          moreover have "\<forall>m \<in> set cs. clean m"
            using IH[of "Children (node_of out)" "state_of out" cs st1] Some Inr p by simp
          ultimately show ?thesis
            using pl by (simp add: setChildren_def)
        qed
      qed
    qed
  qed
qed

lemma executeChildren_clean_step:
  assumes IH1: "\<And>n sibs st placed nxt st'.
               executeElement e fuel n sibs st = Some (Inr (placed, nxt, st')) \<Longrightarrow>
               \<forall>m \<in> set placed. clean m"
    and IH2: "\<And>cs st res st'. executeChildren e fuel cs st = Some (Inr (res, st')) \<Longrightarrow>
               \<forall>m \<in> set res. clean m"
    and r: "executeChildren e (Suc fuel) cs st = Some (Inr (res, st'))"
  shows "\<forall>m \<in> set res. clean m"
proof (cases cs)
  case Nil
  then show ?thesis using r by (simp add: executeChildren.simps)
next
  case (Cons child right)
  note r' = r[unfolded Cons executeChildren.simps]
  show ?thesis
  proof (cases "executeElement e fuel child (Some right) st")
    case None
    then show ?thesis using r' by simp
  next
    case (Some a)
    show ?thesis
    proof (cases a)
      case (Inl x)
      then show ?thesis using r' Some by simp
    next
      case (Inr p)
      obtain placed nxt st1 where p: "p = (placed, nxt, st1)" by (cases p)
      show ?thesis
      proof (cases "executeChildren e fuel nxt st1")
        case n: None
        then show ?thesis using r' Some Inr p by simp
      next
        case s2: (Some b)
        show ?thesis
        proof (cases b)
          case (Inl x)
          then show ?thesis using r' Some Inr p s2 by simp
        next
          case i2: (Inr q)
          obtain rest st2 where q: "q = (rest, st2)" by (cases q)
          have "res = placed @ rest"
            using r' Some Inr p s2 i2 q by simp
          moreover have "\<forall>m \<in> set placed. clean m"
            using IH1[of child "Some right" st placed nxt st1] Some Inr p by simp
          moreover have "\<forall>m \<in> set rest. clean m"
            using IH2[of nxt st1 rest st2] s2 i2 q by simp
          ultimately show ?thesis by auto
        qed
      qed
    qed
  qed
qed

lemma traversal_clean:
  assumes sub: "\<forall>c sn. executeSub e c = Inr sn \<longrightarrow> (\<forall>m \<in> set (Children sn). clean m)"
  shows "(\<forall>n sibs st placed nxt st'.
            executeElement e fuel n sibs st = Some (Inr (placed, nxt, st')) \<longrightarrow>
            (\<forall>m \<in> set placed. clean m))
       \<and> (\<forall>cs st res st'.
            executeChildren e fuel cs st = Some (Inr (res, st')) \<longrightarrow> (\<forall>m \<in> set res. clean m))"
proof (induction fuel)
  case 0
  show ?case by (simp add: executeElement.simps executeChildren.simps)
next
  case (Suc fuel)
  have a: "\<And>n sibs st placed nxt st'.
      executeElement e fuel n sibs st = Some (Inr (placed, nxt, st')) \<Longrightarrow>
      \<forall>m \<in> set placed. clean m"
    using Suc by blast
  have b: "\<And>cs st res st'. executeChildren e fuel cs st = Some (Inr (res, st')) \<Longrightarrow>
      \<forall>m \<in> set res. clean m"
    using Suc by blast
  show ?case
  proof (intro conjI allI impI)
    fix n sibs st placed nxt st'
    assume r: "executeElement e (Suc fuel) n sibs st = Some (Inr (placed, nxt, st'))"
    show "\<forall>m \<in> set placed. clean m"
      by (rule executeElement_clean_step[OF sub _ r]) (erule b)
  next
    fix cs st res st'
    assume r: "executeChildren e (Suc fuel) cs st = Some (Inr (res, st'))"
    show "\<forall>m \<in> set res. clean m"
      by (rule executeChildren_clean_step[OF _ _ r]) (erule a, erule b)
  qed
qed

lemma executeText_clean:
  "clean n \<Longrightarrow> executeText e n dat = Inr n' \<Longrightarrow> clean n'"
  "\<forall>c \<in> set ns. clean c \<Longrightarrow> executeTexts e ns dat = Inr ns' \<Longrightarrow> \<forall>c \<in> set ns'. clean c"
proof (induction e n dat and e ns dat arbitrary: n' and ns' rule: executeText_executeTexts.induct)
  case (1 e ty d attrs cs dat)
  then show ?case by (auto split: if_splits sum.splits)
next
  case (2 e dat)
  then show ?case by simp
next
  case (3 e c cs dat)
  then show ?case by (auto split: sum.splits)
qed

lemma executeElement_root:
  assumes "executeElement e fuel n None st = Some (Inr (placed, nxt, st'))"
  shows "\<exists>r. placed = [r]"
proof (cases fuel)
  case 0
  then show ?thesis using assms by (simp add: executeElement.simps)
next
  case (Suc f)
  note r = assms[unfolded Suc]
  show ?thesis
  proof (cases "Type n = ElementNode")
    case False
    show ?thesis using r[unfolded executeElement_other[OF False]] by auto
  next
    case True
    obtain out where
      o: "attrLoop e 0 (setAttr n (orderAttrs (Attr n))) (newSub e (Data n)) None st = Inr out"
      using executeElement_Inr_loop[OF True r] by blast
    have m: "\<not> modified_of out" using attrLoop_no_parent[OF o] by simp
    note r' = r[unfolded executeElement_looped[OF True o]]
    show ?thesis
    proof (cases "sub_of out")
      case (Some c)
      then show ?thesis using r' m by (cases "executeSub e c") auto
    next
      case None
      show ?thesis
      proof (cases "executeChildren e f (Children (node_of out)) (state_of out)")
        case n: None
        then show ?thesis using r' m None by simp
      next
        case (Some b)
        show ?thesis
        proof (cases b)
          case (Inl x)
          then show ?thesis using r' m None Some by simp
        next
          case (Inr p)
          obtain cs st1 where "p = (cs, st1)" by (cases p)
          then show ?thesis using r' m None Some Inr by auto
        qed
      qed
    qed
  qed
qed

lemma execute_Inr:
  assumes "execute e fuel tmpl st = Some (Inr (root, st'))"
  shows "\<exists>n placed nxt. executeElement e fuel n None st = Some (Inr (placed, nxt, st'))
           \<and> executeText e (case placed of [] \<Rightarrow> n | r # _ \<Rightarrow> r) (data st') = Inr root"
proof (cases "parseNode e tmpl")
  case (Inl x)
  then show ?thesis using assms by (simp add: execute_def)
next
  case (Inr n)
  note n = this
  show ?thesis
  proof (cases "executeElement e fuel n None st")
    case None
    then show ?thesis using assms n by (simp add: execute_def)
  next
    case (Some a)
    show ?thesis
    proof (cases a)
      case (Inl x)
      then show ?thesis using assms n Some by (simp add: execute_def)
    next
      case (Inr p)
      obtain placed nxt st1 where p: "p = (placed, nxt, st1)" by (cases p)
      show ?thesis
      proof (cases "executeText e (case placed of [] \<Rightarrow> n | r # _ \<Rightarrow> r) (data st1)")
        case (Inl x)
        then show ?thesis using assms n Some Inr p by (simp add: execute_def)
      next
        case t: (Inr root')
        have "root' = root" and "st1 = st'"
          using assms n Some Inr p t by (simp_all add: execute_def)
        then show ?thesis using Some Inr p t by blast
      qed
    qed
  qed
qed


text \<open>
  Claim C10. When an execution returns a tree, no element of it carries an attribute whose
  key starts with \<open>v-\<close>: the orderer has dropped the directive keys with no known prefix,
  the attribute loop has deleted every other one before it dispatched it, and it has gone
  on to the attributes that the handlers appended; removed and expanded nodes are not in
  the tree, the nodes an expansion or an html directive produces are executed in turn, and
  the text pass changes no attribute. The children that a subcomponent's own execution
  returns are spliced in as they are, and are taken to be clean.
\<close>

theorem C10_no_directive_in_output:
  assumes "execute e fuel tmpl st = Some (Inr (root, st'))"
    and "\<forall>c sn. executeSub e c = Inr sn \<longrightarrow> (\<forall>m \<in> set (Children sn). clean m)"
  shows "clean root"
proof -
  obtain n placed nxt where
    a: "executeElement e fuel n None st = Some (Inr (placed, nxt, st'))" and
    t: "executeText e (case placed of [] \<Rightarrow> n | r # _ \<Rightarrow> r) (data st') = Inr root"
    using execute_Inr[OF assms(1)] by blast
  obtain r where r: "placed = [r]" using executeElement_root[OF a] by blast
  have "\<forall>m \<in> set placed. clean m"
    using traversal_clean[OF assms(2), of fuel] a by blast
  then have "clean r" using r by simp
  moreover have "executeText e r (data st') = Inr root" using t r by simp
  ultimately show ?thesis by (rule executeText_clean(1))
qed

theorem C10_no_directive_in_output_witness:
  "execute
       (stubEnv\<lparr>ParseFragment := \<lambda>s. Inr [Node ElementNode ''p''
            [Attribute [] ''id'' ''a'', Attribute [] ''v-on:click'' ''Hit'',
             Attribute [] ''v-show'' ''x'', Attribute [] ''v-if'' ''Seen'']
            [Node TextNode ''hi'' [] []]]\<rparr>)
       (Suc (Suc (Suc (Suc (Suc 0))))) ''<p id=a v-on:click=Hit v-show=x v-if=Seen>hi</p>''
       \<lparr>tmpl_id = 0, data = [''Seen'' \<mapsto> VBool True], listeners = []\<rparr>
     = Some (Inr (Node ElementNode [] []
          [Node ElementNode ''p'' [Attribute [] ''id'' ''a'', Attribute [] ''click'' ''Hit'']
             [Node TextNode ''hi'' [] []]],
          \<lparr>tmpl_id = 0, data = [''Seen'' \<mapsto> VBool True],
             listeners = [(''click'', vOnHandler)]\<rparr>))
   \<and> clean (Node ElementNode [] []
          [Node ElementNode ''p'' [Attribute [] ''id'' ''a'', Attribute [] ''click'' ''Hit'']
             [Node TextNode ''hi'' [] []]])"
proof -
  let ?e = "stubEnv\<lparr>ParseFragment := \<lambda>s. Inr [Node ElementNode ''p''
            [Attribute [] ''id'' ''a'', Attribute [] ''v-on:click'' ''Hit'',
             Attribute [] ''v-show'' ''x'', Attribute [] ''v-if'' ''Seen'']
            [Node TextNode ''hi'' [] []]]\<rparr>"
  have t: "TrimSpace ''hi'' = ''hi''"
    by code_simp
  have run: "execute ?e (Suc (Suc (Suc (Suc (Suc 0)))))
       ''<p id=a v-on:click=Hit v-show=x v-if=Seen>hi</p>''
       \<lparr>tmpl_id = 0, data = [''Seen'' \<mapsto> VBool True], listeners = []\<rparr>
     = Some (Inr (Node ElementNode [] []
          [Node ElementNode ''p'' [Attribute [] ''id'' ''a'', Attribute [] ''click'' ''Hit'']
             [Node TextNode ''hi'' [] []]],
          \<lparr>tmpl_id = 0, data = [''Seen'' \<mapsto> VBool True],
             listeners = [(''click'', vOnHandler)]\<rparr>))"
    by (simp add: execute_def parseNode_def parseNodes_def orderAttrs_def const_defs
        HasPrefix_def setAttr_def attrLoop.simps deleteAttr_def executeAttr_def Split_def
        executeAttrIf_def executeAttrOn_def appendAttr_def addEventListener_def setChildren_def
        t executeElement.simps executeChildren.simps Let_def)
  have sub: "\<forall>c sn. executeSub ?e c = Inr sn \<longrightarrow> (\<forall>m \<in> set (Children sn). clean m)"
    by simp
  show ?thesis
    using C10_no_directive_in_output[OF run sub] run by simp
qed

section \<open>Absent fields\<close>

text \<open>
  The points an execution passes: the call of \<open>executeElement\<close> on a node, the loop over
  the children of an element at a child (with the siblings after it), and the attribute
  loop of an element at an index.
\<close>

datatype point =
    AtElement nat node "node list option" tmpl_state
  | AtChildren nat "node list" tmpl_state
  | AtAttr nat node "comp option" "node list option" tmpl_state

text \<open>\<open>panics e p x\<close>: what the execution does from the point \<open>p\<close> on, until the call
  or loop of \<open>p\<close> is left, ends in the panic \<open>x\<close>.\<close>

definition panics :: "env \<Rightarrow> point \<Rightarrow> error \<Rightarrow> bool" where
  "panics e p x =
     (case p of
        AtElement fuel n sibs st \<Rightarrow> executeElement e fuel n sibs st = Some (Inl x)
      | AtChildren fuel cs st \<Rightarrow> executeChildren e fuel cs st = Some (Inl x)
      | AtAttr i n sub sibs st \<Rightarrow> attrLoop e i n sub sibs st = Inl x)"

text \<open>
  \<open>proceeds e p q\<close>: from the point \<open>p\<close> the execution comes to the point \<open>q\<close> next or
  after the calls between them have returned. An element orders its attributes and enters
  the attribute loop at index 0; when the loop ends with no modification and there is no
  subcomponent, it enters the loop over its children. The loop over the children calls
  \<open>executeElement\<close> on the child and, when that returns, goes on at the node it returned.
  The attribute loop passes an attribute that is no directive, and after a dispatched
  directive that reports no modification it goes on at the same index of the node as the
  handler left it.
\<close>

inductive proceeds :: "env \<Rightarrow> point \<Rightarrow> point \<Rightarrow> bool" for e where
  element_attrs:
    "Type n = ElementNode \<Longrightarrow>
     proceeds e (AtElement (Suc fuel) n sibs st)
       (AtAttr 0 (setAttr n (orderAttrs (Attr n))) (newSub e (Data n)) sibs st)"
| element_children:
    "Type n = ElementNode \<Longrightarrow>
     attrLoop e 0 (setAttr n (orderAttrs (Attr n))) (newSub e (Data n)) sibs st = Inr out \<Longrightarrow>
     \<not> modified_of out \<Longrightarrow> sub_of out = None \<Longrightarrow>
     proceeds e (AtElement (Suc fuel) n sibs st)
       (AtChildren fuel (Children (node_of out)) (state_of out))"
| children_first:
    "proceeds e (AtChildren (Suc fuel) (child # right) st) (AtElement fuel child (Some right) st)"
| children_next:
    "executeElement e fuel child (Some right) st = Some (Inr (placed, nxt, st')) \<Longrightarrow>
     proceeds e (AtChildren (Suc fuel) (child # right) st) (AtChildren fuel nxt st')"
| attr_skip:
    "i < length (Attr n) \<Longrightarrow> \<not> HasPrefix (Key (Attr n ! i)) v \<Longrightarrow>
     proceeds e (AtAttr i n sub sibs st) (AtAttr (i + 1) n sub sibs st)"
| attr_dispatch:
    "i < length (Attr n) \<Longrightarrow> HasPrefix (Key (Attr n ! i)) v \<Longrightarrow>
     executeAttr e (setAttr n (deleteAttr (Attr n) i)) sub (Attr n ! i) sibs st = Inr out \<Longrightarrow>
     \<not> modified_of out \<Longrightarrow>
     proceeds e (AtAttr i n sub sibs st) (AtAttr i (node_of out) (sub_of out) sibs (state_of out))"

text \<open>A panic is passed up unchanged: no caller recovers.\<close>

lemma panic_passes_up:
  assumes "proceeds e p q" and "panics e q x"
  shows "panics e p x"
  using assms
proof (cases rule: proceeds.cases)
  case (element_attrs n fuel sibs st)
  then show ?thesis
    using assms(2) by (simp add: panics_def executeElement_attrLoop_error)
next
  case (element_children n sibs st out fuel)
  then show ?thesis
    using assms(2) by (simp add: panics_def executeElement_looped)
next
  case (children_first fuel child right st)
  then show ?thesis
    using assms(2) by (simp add: panics_def executeChildren_error)
next
  case (children_next fuel child right st placed nxt st')
  then show ?thesis
    using assms(2) by (simp add: panics_def executeChildren.simps)
next
  case (attr_skip i n sub sibs st)
  then show ?thesis
    using assms(2) by (simp add: panics_def attrLoop.simps[of e i n])
next
  case (attr_dispatch i n sub sibs st out)
  then show ?thesis
    using assms(2) by (simp add: panics_def attrLoop_dispatch)
qed

lemma panic_passes_to_start:
  assumes "(proceeds e)\<^sup>*\<^sup>* p q" and "panics e q x"
  shows "panics e p x"
  using assms by (induction rule: converse_rtranclp_induct) (auto intro: panic_passes_up)

lemma execute_panics:
  assumes "parseNode e tmpl = Inr root" and "panics e (AtElement fuel root None st0) x"
  shows "execute e fuel tmpl st0 = Some (Inl x)"
  using assms by (simp add: execute_def panics_def)

text \<open>
  Claim C1, as stated: a bind, if, html or model directive that names a field absent from
  the data raises its error. It fails for if: \<open>executeAttrIf\<close> on the absent field
  \<open>Seen\<close> raises nothing, it removes the node and reports the modification.
\<close>

theorem C1_if_absent_field_removes:
  "executeAttrIf (Node ElementNode ''p'' [] []) (Some []) ''Seen'' Map.empty = Inr ([], True)"
  by (simp add: executeAttrIf_def)

text \<open>
  Claim C1, amended. When the attribute loop stands at a bind, html or model directive whose
  field is absent from the data, it panics with the unknown-data-field error carrying the
  field name; and every execution that comes to such a point, wherever in the tree and
  after whatever directives, ends in this panic and returns no tree. At an if directive
  whose field is absent the loop raises nothing: the node is removed from its parent and
  the traversal resumes at its former next sibling.
\<close>

theorem C1_absent_field:
  assumes "data st field = None" and "i < length (Attr n)"
    and "Attr n ! i = Attribute ns key field"
  shows "(key = vBind @ '':'' @ pname \<or> key = vHtml \<or> key = vModel \<longrightarrow>
            attrLoop e i n sub sibs st = Inl (UnknownDataField field)
            \<and> (parseNode e tmpl = Inr root
                 \<and> (proceeds e)\<^sup>*\<^sup>* (AtElement fuel root None st0) (AtAttr i n sub sibs st) \<longrightarrow>
               execute e fuel tmpl st0 = Some (Inl (UnknownDataField field))))
       \<and> (key = vIf \<longrightarrow>
            attrLoop e i n sub (Some right) st
              = Inr (Outcome (setAttr n (deleteAttr (Attr n) i)) sub st right True))"
proof (intro conjI impI)
  assume k: "key = vBind @ '':'' @ pname \<or> key = vHtml \<or> key = vModel"
  then have "HasPrefix (Key (Attr n ! i)) v"
    using assms(3) directive_keys_prefixed by auto
  moreover have "executeAttr e (setAttr n (deleteAttr (Attr n) i)) sub (Attr n ! i) sibs st
      = Inl (UnknownDataField field)"
    using k assms(1,3) executeAttr_bind_absent executeAttr_html_absent executeAttr_model_absent
    by auto
  ultimately show loop: "attrLoop e i n sub sibs st = Inl (UnknownDataField field)"
    using assms(2) by (simp add: attrLoop_dispatch)
  assume "parseNode e tmpl = Inr root
      \<and> (proceeds e)\<^sup>*\<^sup>* (AtElement fuel root None st0) (AtAttr i n sub sibs st)"
  then have p: "parseNode e tmpl = Inr root"
    and r: "(proceeds e)\<^sup>*\<^sup>* (AtElement fuel root None st0) (AtAttr i n sub sibs st)"
    by simp_all
  have "panics e (AtAttr i n sub sibs st) (UnknownDataField field)"
    using loop by (simp add: panics_def)
  then have "panics e (AtElement fuel root None st0) (UnknownDataField field)"
    using r by (rule panic_passes_to_start[rotated])
  then show "execute e fuel tmpl st0 = Some (Inl (UnknownDataField field))"
    using p by (intro execute_panics)
next
  assume k: "key = vIf"
  then have "HasPrefix (Key (Attr n ! i)) v"
    using assms(3) directive_keys_prefixed by simp
  then show "attrLoop e i n sub (Some right) st
      = Inr (Outcome (setAttr n (deleteAttr (Attr n) i)) sub st right True)"
    using assms k by (simp add: attrLoop_dispatch executeAttr_if)
qed

theorem C1_absent_field_witness:
  "execute
       (stubEnv\<lparr>ParseFragment := \<lambda>s. Inr [Node ElementNode ''b'' [] [],
          Node ElementNode ''a''
            [Attribute [] ''id'' ''x'', Attribute [] ''v-bind:href'' ''Url'',
             Attribute [] ''v-if'' ''Seen''] []]\<rparr>)
       (Suc (Suc (Suc (Suc (Suc 0))))) ''<b></b><a id=x v-bind:href=Url v-if=Seen></a>''
       \<lparr>tmpl_id = 0, data = [''Seen'' \<mapsto> VBool True], listeners = []\<rparr>
     = Some (Inl (UnknownDataField ''Url''))
   \<and> attrLoop stubEnv 0 (Node ElementNode ''p'' [Attribute [] ''v-if'' ''Seen''] []) None
       (Some [Node ElementNode ''b'' [] []])
       \<lparr>tmpl_id = 0, data = Map.empty, listeners = []\<rparr>
     = Inr (Outcome (Node ElementNode ''p'' [] []) None
          \<lparr>tmpl_id = 0, data = Map.empty, listeners = []\<rparr> [Node ElementNode ''b'' [] []] True)"
proof -
  let ?b = "Node ElementNode ''b'' [] []"
  let ?a = "Node ElementNode ''a''
            [Attribute [] ''id'' ''x'', Attribute [] ''v-bind:href'' ''Url'',
             Attribute [] ''v-if'' ''Seen''] []"
  let ?a1 = "Node ElementNode ''a''
            [Attribute [] ''v-if'' ''Seen'', Attribute [] ''v-bind:href'' ''Url'',
             Attribute [] ''id'' ''x''] []"
  let ?a2 = "Node ElementNode ''a''
            [Attribute [] ''v-bind:href'' ''Url'', Attribute [] ''id'' ''x''] []"
  let ?e = "stubEnv\<lparr>ParseFragment := \<lambda>s. Inr [?b, ?a]\<rparr>"
  let ?st = "\<lparr>tmpl_id = 0, data = [''Seen'' \<mapsto> VBool True], listeners = []\<rparr>"
  let ?root = "Node ElementNode [] [] [?b, ?a]"
  have parse: "parseNode ?e ''<b></b><a id=x v-bind:href=Url v-if=Seen></a>'' = Inr ?root"
    by (simp add: parseNode_def parseNodes_def)
  have s1: "proceeds ?e (AtElement (Suc (Suc (Suc (Suc (Suc 0))))) ?root None ?st)
      (AtChildren (Suc (Suc (Suc (Suc 0)))) [?b, ?a] ?st)"
    using proceeds.element_children[where e = ?e and n = ?root and sibs = None and st = ?st
        and out = "Outcome ?root None ?st [] False" and fuel = "Suc (Suc (Suc (Suc 0)))"]
    by (simp add: orderAttrs_def setAttr_def attrLoop.simps)
  have s2: "proceeds ?e (AtChildren (Suc (Suc (Suc (Suc 0)))) [?b, ?a] ?st)
      (AtChildren (Suc (Suc (Suc 0))) [?a] ?st)"
    using proceeds.children_next[where e = ?e and fuel = "Suc (Suc (Suc 0))" and child = ?b
        and right = "[?a]" and st = ?st and placed = "[?b]" and nxt = "[?a]" and st' = ?st]
    by (simp add: orderAttrs_def setAttr_def attrLoop.simps executeElement.simps
        executeChildren.simps setChildren_def)
  have s3: "proceeds ?e (AtChildren (Suc (Suc (Suc 0))) [?a] ?st)
      (AtElement (Suc (Suc 0)) ?a (Some []) ?st)"
    by (rule proceeds.children_first)
  have s4: "proceeds ?e (AtElement (Suc (Suc 0)) ?a (Some []) ?st) (AtAttr 0 ?a1 None (Some []) ?st)"
    using proceeds.element_attrs[where e = ?e and n = ?a and fuel = "Suc 0" and sibs = "Some []"
        and st = ?st]
    by (simp add: orderAttrs_def setAttr_def const_defs HasPrefix_def)
  have s5: "proceeds ?e (AtAttr 0 ?a1 None (Some []) ?st) (AtAttr 0 ?a2 None (Some []) ?st)"
    using proceeds.attr_dispatch[where e = ?e and i = 0 and n = ?a1 and sub = None
        and sibs = "Some []" and st = ?st and out = "Outcome ?a2 None ?st [] False"]
    by (simp add: setAttr_def deleteAttr_def const_defs HasPrefix_def executeAttr_def Split_def
        executeAttrIf_def)
  have reach: "(proceeds ?e)\<^sup>*\<^sup>* (AtElement (Suc (Suc (Suc (Suc (Suc 0))))) ?root None ?st)
      (AtAttr 0 ?a2 None (Some []) ?st)"
    using s1 s2 s3 s4 s5 by (meson rtranclp.rtrancl_into_rtrancl rtranclp.rtrancl_refl)
  note a = C1_absent_field[where st = ?st and field = "''Url''" and i = 0 and n = ?a2 and ns = "[]"
      and key = "''v-bind:href''" and pname = "''href''" and e = ?e and sub = None
      and sibs = "Some []" and tmpl = "''<b></b><a id=x v-bind:href=Url v-if=Seen></a>''"
      and root = ?root and fuel = "Suc (Suc (Suc (Suc (Suc 0))))" and ?st0.0 = ?st]
  note b = C1_absent_field[where st = "\<lparr>tmpl_id = 0, data = Map.empty, listeners = []\<rparr>"
      and field = "''Seen''" and i = 0
      and n = "Node ElementNode ''p'' [Attribute [] ''v-if'' ''Seen''] []" and ns = "[]"
      and key = "''v-if''" and e = stubEnv and sub = None and right = "[?b]"]
  have "execute ?e (Suc (Suc (Suc (Suc (Suc 0)))))
      ''<b></b><a id=x v-bind:href=Url v-if=Seen></a>'' ?st = Some (Inl (UnknownDataField ''Url''))"
    using a parse reach by (simp add: const_defs)
  moreover have "attrLoop stubEnv 0 (Node ElementNode ''p'' [Attribute [] ''v-if'' ''Seen''] [])
      None (Some [?b]) \<lparr>tmpl_id = 0, data = Map.empty, listeners = []\<rparr>
     = Inr (Outcome (Node ElementNode ''p'' [] []) None
          \<lparr>tmpl_id = 0, data = Map.empty, listeners = []\<rparr> [?b] True)"
    using b by (simp add: const_defs setAttr_def deleteAttr_def)
  ultimately show ?thesis by simp
qed

end
